theory Spec2Isabelle
  imports Main "HOL-Library.Word"
begin

section \<open>The adapter interface (adapter/adapter.go)\<close>

text \<open>
  The server talks to the printer through the interface \<open>Adapter\<close>. An implementation
  is a state of some type \<open>'a\<close> together with its methods; every method returns its
  result and the new state. Errors are Go \<open>error\<close> values, modelled by their message
  (\<open>None\<close> is \<open>nil\<close>). \<open>Read\<close> belongs to the interface but the server never calls it.
\<close>

type_synonym byte = "8 word"

record 'a Adapter =
  Open :: "'a \<Rightarrow> string option \<times> 'a"
  Write :: "byte list \<Rightarrow> 'a \<Rightarrow> (int \<times> string option) \<times> 'a"
  Close :: "'a \<Rightarrow> string option \<times> 'a"
  IsOpen :: "'a \<Rightarrow> bool"

subsection \<open>MockAdapter (server/server_test.go)\<close>

record MockAdapter =
  is_open :: bool
  writeData :: "byte list"

definition MockAdapter_Open :: "MockAdapter \<Rightarrow> string option \<times> MockAdapter" where
  "MockAdapter_Open m = (None, m\<lparr>is_open := True\<rparr>)"

definition MockAdapter_Write :: "byte list \<Rightarrow> MockAdapter \<Rightarrow> (int \<times> string option) \<times> MockAdapter" where
  "MockAdapter_Write data m = ((int (length data), None), m\<lparr>writeData := writeData m @ data\<rparr>)"

definition MockAdapter_Close :: "MockAdapter \<Rightarrow> string option \<times> MockAdapter" where
  "MockAdapter_Close m = (None, m\<lparr>is_open := False\<rparr>)"

definition MockAdapter_IsOpen :: "MockAdapter \<Rightarrow> bool" where
  "MockAdapter_IsOpen m = is_open m"

definition Mock :: "MockAdapter Adapter" where
  "Mock = \<lparr>Open = MockAdapter_Open, Write = MockAdapter_Write,
           Close = MockAdapter_Close, IsOpen = MockAdapter_IsOpen\<rparr>"

text \<open>\<open>&MockAdapter{}\<close>: the zero value.\<close>

definition mock0 :: MockAdapter where
  "mock0 = \<lparr>is_open = False, writeData = []\<rparr>"

section \<open>The server (server/server.go)\<close>

subsection \<open>Data\<close>

text \<open>
  The errors the server returns: \<open>fmt.Errorf("server already running")\<close>,
  \<open>fmt.Errorf("failed to start server: %w", err)\<close>,
  \<open>fmt.Errorf("failed to open adapter: %w", err)\<close>, and the adapter's own error, which
  \<open>Stop\<close> returns as it is. The specification calls them AlreadyRunning, BindFailed,
  DeviceOpenFailed and DeviceCloseFailed.
\<close>

datatype error =
    ServerAlreadyRunning
  | FailedToStartServer string
  | FailedToOpenAdapter string
  | AdapterError string

text \<open>
  What successive calls of \<open>conn.Read\<close> find on a connection: bytes that have arrived, or
  an error (\<open>io.EOF\<close> when the client has closed). A read on a connection with nothing
  left blocks.
\<close>

datatype rd = Data "byte list" | Fail string

record conn =
  sends :: "rd list"
  unread :: "rd list"

text \<open>
  A goroutine, by the point of the source it is at: in the locked part of a call of
  \<open>Start\<close>, \<open>StartAsync\<close> or \<open>Stop\<close>; at the top of the loop of \<open>acceptConnections\<close>; in
  \<open>handleConnection\<close> at \<open>conn.Read\<close>, inside \<open>s.adapter.Write\<close>, or gone with its
  connection closed; in \<open>Stop\<close> before \<open>listener.Close()\<close> (holding the local variable
  \<open>listener\<close>), at \<open>s.wg.Wait()\<close>, or before \<open>s.adapter.IsOpen()\<close>; returned.
\<close>

datatype task =
    Calling
  | Accepting
  | Reading conn
  | Writing conn "byte list"
  | Closed conn
  | StopClosing "nat option"
  | StopWaiting
  | StopAdapter
  | Returned "error option"

text \<open>A call of an adapter method, with what it returned.\<close>

datatype call =
    CIsOpen bool
  | COpen "string option"
  | CWrite "byte list" int "string option"
  | CClose "string option"

text \<open>
  The \<open>Server\<close> struct (\<open>address\<close>, \<open>listener\<close>, \<open>running\<close>, the counter of \<open>wg\<close>; the
  mutex \<open>mu\<close> is not a field here: each locked region is one step), the state \<open>dev\<close> of
  the adapter it points to, and what surrounds it: the log \<open>calls\<close> of adapter calls,
  each with the goroutine that made it; the listening sockets \<open>socks\<close> created so far
  (a handle is an index; address, and whether still open); the addresses \<open>unusable\<close> on
  which \<open>net.Listen\<close> fails for a reason outside the server (malformed, held by another
  process); the connections \<open>backlog\<close> that clients have made and the server has not yet
  accepted; the goroutines \<open>tasks\<close> (a goroutine's id is its index); and whether the
  process has panicked.
\<close>

record 'a world =
  address :: string
  listener :: "nat option"
  running :: bool
  wg :: int
  dev :: 'a
  calls :: "(nat \<times> call) list"
  socks :: "(string \<times> bool) list"
  unusable :: "string list"
  backlog :: "rd list list"
  tasks :: "task list"
  panicked :: bool

text \<open>\<open>New(device, address)\<close>, in an environment where the addresses \<open>bad\<close> are unusable.\<close>

definition New :: "'a \<Rightarrow> string \<Rightarrow> string list \<Rightarrow> 'a world" where
  "New device addr bad =
     \<lparr>address = addr, listener = None, running = False, wg = 0, dev = device,
      calls = [], socks = [], unusable = bad, backlog = [], tasks = [], panicked = False\<rparr>"

subsection \<open>The network\<close>

text \<open>
  \<open>net.Listen("tcp", addr)\<close> fails when the address is unusable or a socket that is
  still open is bound to it, and creates a socket otherwise.
\<close>

definition Listen :: "string \<Rightarrow> 'a world \<Rightarrow> (string + nat) \<times> 'a world" where
  "Listen addr w =
     (if addr \<in> set (unusable w) \<or> (addr, True) \<in> set (socks w)
      then (Inl ''listen failed'', w)
      else (Inr (length (socks w)), w\<lparr>socks := socks w @ [(addr, True)]\<rparr>))"

text \<open>
  \<open>listener.Close()\<close>: the socket is closed and the connections waiting on it are
  dropped. Closing a closed socket returns an error that the server ignores.
\<close>

definition listener_Close :: "nat \<Rightarrow> 'a world \<Rightarrow> 'a world" where
  "listener_Close l w =
     (if l < length (socks w) \<and> snd (socks w ! l)
      then w\<lparr>socks := (socks w)[l := (fst (socks w ! l), False)], backlog := []\<rparr>
      else w)"

text \<open>\<open>s.listener.Close()\<close> on the field; a nil listener is a nil dereference.\<close>

definition field_Close :: "'a world \<Rightarrow> 'a world" where
  "field_Close w =
     (case listener w of None \<Rightarrow> w\<lparr>panicked := True\<rparr> | Some l \<Rightarrow> listener_Close l w)"

text \<open>
  \<open>conn.Read(buf)\<close> with the 4096-byte buffer: \<open>None\<close> when it blocks, the bytes read,
  or the error. An error stays: the next read fails again.
\<close>

definition conn_Read :: "conn \<Rightarrow> (byte list + string) option \<times> conn" where
  "conn_Read c =
     (case unread c of
        [] \<Rightarrow> (None, c)
      | Fail e # rest \<Rightarrow> (Some (Inr e), c)
      | Data bs # rest \<Rightarrow>
          if length bs \<le> 4096 then (Some (Inl bs), c\<lparr>unread := rest\<rparr>)
          else (Some (Inl (take 4096 bs)), c\<lparr>unread := Data (drop 4096 bs) # rest\<rparr>))"

subsection \<open>Calls of the adapter, logged\<close>

definition adapter_IsOpen :: "'a Adapter \<Rightarrow> nat \<Rightarrow> 'a world \<Rightarrow> bool \<times> 'a world" where
  "adapter_IsOpen ad g w =
     (IsOpen ad (dev w), w\<lparr>calls := calls w @ [(g, CIsOpen (IsOpen ad (dev w)))]\<rparr>)"

definition adapter_Open :: "'a Adapter \<Rightarrow> nat \<Rightarrow> 'a world \<Rightarrow> string option \<times> 'a world" where
  "adapter_Open ad g w =
     (case Open ad (dev w) of
        (r, d) \<Rightarrow> (r, w\<lparr>dev := d, calls := calls w @ [(g, COpen r)]\<rparr>))"

definition adapter_Close :: "'a Adapter \<Rightarrow> nat \<Rightarrow> 'a world \<Rightarrow> string option \<times> 'a world" where
  "adapter_Close ad g w =
     (case Close ad (dev w) of
        (r, d) \<Rightarrow> (r, w\<lparr>dev := d, calls := calls w @ [(g, CClose r)]\<rparr>))"

definition adapter_Write ::
  "'a Adapter \<Rightarrow> nat \<Rightarrow> byte list \<Rightarrow> 'a world \<Rightarrow> (int \<times> string option) \<times> 'a world" where
  "adapter_Write ad g data w =
     (case Write ad data (dev w) of
        ((n, r), d) \<Rightarrow> ((n, r), w\<lparr>dev := d, calls := calls w @ [(g, CWrite data n r)]\<rparr>))"

subsection \<open>Start, StartAsync\<close>

text \<open>
  \<open>Start\<close>, called by goroutine \<open>g\<close>, from \<open>s.mu.Lock()\<close> to the point where it returns
  an error or enters \<open>s.acceptConnections()\<close>: the result is where \<open>g\<close> is afterwards.
\<close>

definition Start :: "'a Adapter \<Rightarrow> nat \<Rightarrow> 'a world \<Rightarrow> task \<times> 'a world" where
  "Start ad g w =
     (if running w then (Returned (Some ServerAlreadyRunning), w)
      else case Listen (address w) w of
        (Inl err, w1) \<Rightarrow> (Returned (Some (FailedToStartServer err)), w1)
      | (Inr l, w1) \<Rightarrow>
          (let w2 = w1\<lparr>listener := Some l, running := True\<rparr> in
           case adapter_IsOpen ad g w2 of
             (False, w3) \<Rightarrow>
               (case adapter_Open ad g w3 of
                  (Some err, w4) \<Rightarrow>
                    (Returned (Some (FailedToOpenAdapter err)),
                     (field_Close w4)\<lparr>running := False\<rparr>)
                | (None, w4) \<Rightarrow> (Accepting, w4))
           | (True, w3) \<Rightarrow> (Accepting, w3)))"

text \<open>
  \<open>StartAsync\<close>, whole: the same locked part, then \<open>s.wg.Add(1)\<close> and
  \<open>go s.acceptConnections()\<close>, and \<open>return nil\<close>.
\<close>

definition StartAsync :: "'a Adapter \<Rightarrow> nat \<Rightarrow> 'a world \<Rightarrow> task \<times> 'a world" where
  "StartAsync ad g w =
     (if running w then (Returned (Some ServerAlreadyRunning), w)
      else case Listen (address w) w of
        (Inl err, w1) \<Rightarrow> (Returned (Some (FailedToStartServer err)), w1)
      | (Inr l, w1) \<Rightarrow>
          (let w2 = w1\<lparr>listener := Some l, running := True\<rparr> in
           case adapter_IsOpen ad g w2 of
             (False, w3) \<Rightarrow>
               (case adapter_Open ad g w3 of
                  (Some err, w4) \<Rightarrow>
                    (Returned (Some (FailedToOpenAdapter err)),
                     (field_Close w4)\<lparr>running := False\<rparr>)
                | (None, w4) \<Rightarrow>
                    (Returned None, w4\<lparr>wg := wg w4 + 1, tasks := tasks w4 @ [Accepting]\<rparr>))
           | (True, w3) \<Rightarrow>
               (Returned None, w3\<lparr>wg := wg w3 + 1, tasks := tasks w3 @ [Accepting]\<rparr>)))"

subsection \<open>acceptConnections\<close>

text \<open>
  \<open>s.listener.Accept()\<close> has returned an error in goroutine \<open>g\<close>: the loop ends when
  \<open>running\<close> is false and goes round otherwise.
\<close>

definition accept_failed :: "nat \<Rightarrow> 'a world \<Rightarrow> 'a world" where
  "accept_failed g w =
     (if \<not> running w then w\<lparr>tasks := (tasks w)[g := Returned None]\<rparr> else w)"

text \<open>
  One round of the loop: \<open>Accept\<close> fails on a closed socket, blocks on an open one with
  no connection waiting, and otherwise returns a connection, for which the loop does
  \<open>s.wg.Add(1)\<close> and \<open>go s.handleConnection(conn)\<close>.
\<close>

definition acceptConnections :: "nat \<Rightarrow> 'a world \<Rightarrow> 'a world" where
  "acceptConnections g w =
     (case listener w of
        None \<Rightarrow> w\<lparr>panicked := True\<rparr>
      | Some l \<Rightarrow>
          if l < length (socks w) \<and> snd (socks w ! l) then
            (case backlog w of
               [] \<Rightarrow> w
             | c # cs \<Rightarrow>
                 w\<lparr>backlog := cs, wg := wg w + 1,
                   tasks := tasks w @ [Reading \<lparr>sends = c, unread = c\<rparr>]\<rparr>)
          else accept_failed g w)"

subsection \<open>handleConnection\<close>

text \<open>
  The deferred calls, when \<open>handleConnection\<close> returns: \<open>conn.Close()\<close>, then
  \<open>s.wg.Done()\<close>, which panics on a negative counter.
\<close>

definition handleConnection_return :: "nat \<Rightarrow> conn \<Rightarrow> 'a world \<Rightarrow> 'a world" where
  "handleConnection_return g c w =
     w\<lparr>tasks := (tasks w)[g := Closed c], wg := wg w - 1,
       panicked := panicked w \<or> wg w - 1 < 0\<rparr>"

text \<open>
  From \<open>conn.Read(buf)\<close> to the call of \<open>s.adapter.Write(buf[:n])\<close>: a read error ends
  the function, \<open>n = 0\<close> goes round the loop, \<open>n > 0\<close> enters \<open>Write\<close> with the \<open>n\<close> bytes.
\<close>

definition handleConnection_read :: "nat \<Rightarrow> conn \<Rightarrow> 'a world \<Rightarrow> 'a world" where
  "handleConnection_read g c w =
     (case conn_Read c of
        (None, c') \<Rightarrow> w
      | (Some (Inr err), c') \<Rightarrow> handleConnection_return g c' w
      | (Some (Inl bs), c') \<Rightarrow>
          if length bs > 0 then w\<lparr>tasks := (tasks w)[g := Writing c' bs]\<rparr>
          else w\<lparr>tasks := (tasks w)[g := Reading c']\<rparr>)"

text \<open>
  \<open>s.adapter.Write\<close> returns: with an error the function returns, otherwise the count
  is logged and the loop goes round.
\<close>

definition handleConnection_write ::
  "'a Adapter \<Rightarrow> nat \<Rightarrow> conn \<Rightarrow> byte list \<Rightarrow> 'a world \<Rightarrow> 'a world" where
  "handleConnection_write ad g c bs w =
     (case adapter_Write ad g bs w of
        ((written, Some writeErr), w') \<Rightarrow> handleConnection_return g c w'
      | ((written, None), w') \<Rightarrow> w'\<lparr>tasks := (tasks w')[g := Reading c]\<rparr>)"

subsection \<open>Stop\<close>

text \<open>The locked part of \<open>Stop\<close>.\<close>

definition Stop :: "'a world \<Rightarrow> task \<times> 'a world" where
  "Stop w =
     (if \<not> running w then (Returned None, w)
      else (StopClosing (listener w), w\<lparr>running := False\<rparr>))"

text \<open>\<open>if listener != nil { listener.Close() }\<close>, on the local variable.\<close>

definition Stop_close :: "nat \<Rightarrow> nat option \<Rightarrow> 'a world \<Rightarrow> 'a world" where
  "Stop_close g l w =
     (case l of
        None \<Rightarrow> w\<lparr>tasks := (tasks w)[g := StopWaiting]\<rparr>
      | Some h \<Rightarrow> (listener_Close h w)\<lparr>tasks := (tasks (listener_Close h w))[g := StopWaiting]\<rparr>)"

text \<open>\<open>s.wg.Wait()\<close> returns when the counter is zero, and blocks until then.\<close>

definition Stop_Wait :: "nat \<Rightarrow> 'a world \<Rightarrow> 'a world" where
  "Stop_Wait g w = (if wg w = 0 then w\<lparr>tasks := (tasks w)[g := StopAdapter]\<rparr> else w)"

text \<open>The rest of \<open>Stop\<close>: the adapter is closed if it says it is open.\<close>

definition Stop_adapter :: "'a Adapter \<Rightarrow> nat \<Rightarrow> 'a world \<Rightarrow> 'a world" where
  "Stop_adapter ad g w =
     (case adapter_IsOpen ad g w of
        (True, w1) \<Rightarrow>
          (case adapter_Close ad g w1 of
             (Some err, w2) \<Rightarrow> w2\<lparr>tasks := (tasks w2)[g := Returned (Some (AdapterError err))]\<rparr>
           | (None, w2) \<Rightarrow> w2\<lparr>tasks := (tasks w2)[g := Returned None]\<rparr>)
      | (False, w1) \<Rightarrow> w1\<lparr>tasks := (tasks w1)[g := Returned None]\<rparr>)"

definition IsRunning :: "'a world \<Rightarrow> bool" where
  "IsRunning w = running w"

subsection \<open>Executions\<close>

text \<open>
  What can happen next: some goroutine calls \<open>Start\<close>, \<open>StartAsync\<close> or \<open>Stop\<close>; a
  client connects, and will send what the script says; goroutine \<open>g\<close> takes its next
  step; or the \<open>Accept\<close> of goroutine \<open>g\<close> fails for a passing reason.
\<close>

datatype event =
    CallStart
  | CallStartAsync
  | CallStop
  | Connect "rd list"
  | Step nat
  | AcceptError nat

text \<open>A call runs in a new goroutine, which ends up where the function leaves it.\<close>

definition invoke :: "(nat \<Rightarrow> 'a world \<Rightarrow> task \<times> 'a world) \<Rightarrow> 'a world \<Rightarrow> 'a world" where
  "invoke f w =
     (let g = length (tasks w) in
      case f g (w\<lparr>tasks := tasks w @ [Calling]\<rparr>) of
        (t, w') \<Rightarrow> w'\<lparr>tasks := (tasks w')[g := t]\<rparr>)"

text \<open>A client reaches the server only while a socket is open on the server's address.\<close>

definition connect :: "rd list \<Rightarrow> 'a world \<Rightarrow> 'a world" where
  "connect c w =
     (if (address w, True) \<in> set (socks w) then w\<lparr>backlog := backlog w @ [c]\<rparr> else w)"

definition step :: "'a Adapter \<Rightarrow> nat \<Rightarrow> 'a world \<Rightarrow> 'a world" where
  "step ad g w =
     (if g < length (tasks w) then
        (case tasks w ! g of
           Accepting \<Rightarrow> acceptConnections g w
         | Reading c \<Rightarrow> handleConnection_read g c w
         | Writing c bs \<Rightarrow> handleConnection_write ad g c bs w
         | StopClosing l \<Rightarrow> Stop_close g l w
         | StopWaiting \<Rightarrow> Stop_Wait g w
         | StopAdapter \<Rightarrow> Stop_adapter ad g w
         | _ \<Rightarrow> w)
      else w)"

definition exec :: "'a Adapter \<Rightarrow> event \<Rightarrow> 'a world \<Rightarrow> 'a world" where
  "exec ad ev w =
     (if panicked w then w
      else case ev of
        CallStart \<Rightarrow> invoke (Start ad) w
      | CallStartAsync \<Rightarrow> invoke (StartAsync ad) w
      | CallStop \<Rightarrow> invoke (\<lambda>g. Stop) w
      | Connect c \<Rightarrow> connect c w
      | Step g \<Rightarrow> step ad g w
      | AcceptError g \<Rightarrow>
          (if g < length (tasks w) \<and> tasks w ! g = Accepting then accept_failed g w else w))"

definition run :: "'a Adapter \<Rightarrow> event list \<Rightarrow> 'a world \<Rightarrow> 'a world" where
  "run ad evs w = fold (exec ad) evs w"


section \<open>Notions used in the statements\<close>

subsection \<open>Goroutines counted by the wait group\<close>

text \<open>A goroutine that is inside \<open>handleConnection\<close>.\<close>

fun handling :: "task \<Rightarrow> bool" where
  "handling (Reading c) = True"
| "handling (Writing c bs) = True"
| "handling t = False"

definition handlers :: "task list \<Rightarrow> nat" where
  "handlers ts = length (filter handling ts)"

text \<open>A call of \<open>Stop\<close> that has not come out of \<open>s.wg.Wait()\<close>.\<close>

fun stop_pending :: "task \<Rightarrow> bool" where
  "stop_pending (StopClosing l) = True"
| "stop_pending StopWaiting = True"
| "stop_pending t = False"

text \<open>
  Goroutine \<open>s\<close> is such a call, and the counter of the wait group is above the number
  of goroutines that will ever call \<open>Done\<close>.
\<close>

definition stop_blocked :: "nat \<Rightarrow> 'a world \<Rightarrow> bool" where
  "stop_blocked s w =
     (s < length (tasks w) \<and> stop_pending (tasks w ! s) \<and> int (handlers (tasks w)) < wg w)"


section \<open>The effect of one event\<close>

lemma Start_closed_form:
  "Start ad g w =
     (if running w then (Returned (Some ServerAlreadyRunning), w)
      else if address w \<in> set (unusable w) \<or> (address w, True) \<in> set (socks w)
        then (Returned (Some (FailedToStartServer ''listen failed'')), w)
      else if IsOpen ad (dev w)
        then (Accepting,
              w\<lparr>listener := Some (length (socks w)), running := True,
                calls := calls w @ [(g, CIsOpen True)],
                socks := socks w @ [(address w, True)]\<rparr>)
      else case Open ad (dev w) of
        (None, d) \<Rightarrow>
          (Accepting,
           w\<lparr>listener := Some (length (socks w)), running := True, dev := d,
             calls := calls w @ [(g, CIsOpen False), (g, COpen None)],
             socks := socks w @ [(address w, True)]\<rparr>)
      | (Some e, d) \<Rightarrow>
          (Returned (Some (FailedToOpenAdapter e)),
           w\<lparr>listener := Some (length (socks w)), running := False, dev := d,
             calls := calls w @ [(g, CIsOpen False), (g, COpen (Some e))],
             socks := socks w @ [(address w, False)], backlog := []\<rparr>))"
  by (simp add: Start_def Listen_def adapter_IsOpen_def adapter_Open_def field_Close_def
      listener_Close_def Let_def split: prod.splits option.splits)

lemma StartAsync_closed_form:
  "StartAsync ad g w =
     (if running w then (Returned (Some ServerAlreadyRunning), w)
      else if address w \<in> set (unusable w) \<or> (address w, True) \<in> set (socks w)
        then (Returned (Some (FailedToStartServer ''listen failed'')), w)
      else if IsOpen ad (dev w)
        then (Returned None,
              w\<lparr>listener := Some (length (socks w)), running := True,
                calls := calls w @ [(g, CIsOpen True)],
                socks := socks w @ [(address w, True)],
                wg := wg w + 1, tasks := tasks w @ [Accepting]\<rparr>)
      else case Open ad (dev w) of
        (None, d) \<Rightarrow>
          (Returned None,
           w\<lparr>listener := Some (length (socks w)), running := True, dev := d,
             calls := calls w @ [(g, CIsOpen False), (g, COpen None)],
             socks := socks w @ [(address w, True)],
             wg := wg w + 1, tasks := tasks w @ [Accepting]\<rparr>)
      | (Some e, d) \<Rightarrow>
          (Returned (Some (FailedToOpenAdapter e)),
           w\<lparr>listener := Some (length (socks w)), running := False, dev := d,
             calls := calls w @ [(g, CIsOpen False), (g, COpen (Some e))],
             socks := socks w @ [(address w, False)], backlog := []\<rparr>))"
  by (simp add: StartAsync_def Listen_def adapter_IsOpen_def adapter_Open_def field_Close_def
      listener_Close_def Let_def split: prod.splits option.splits)

lemma invoke_eq:
  "invoke f w =
     (case f (length (tasks w)) (w\<lparr>tasks := tasks w @ [Calling]\<rparr>) of
        (t, w') \<Rightarrow> w'\<lparr>tasks := (tasks w')[length (tasks w) := t]\<rparr>)"
  by (simp add: invoke_def Let_def)

text \<open>What one event can do to the world, case by case.\<close>

lemma exec_CallStart_cases:
  fixes w :: "'a world"
  obtains
    (returned) r where "exec ad CallStart w = w\<lparr>tasks := tasks w @ [Returned r]\<rparr>"
  | (open_failed) e d where "\<not> running w" "\<not> IsOpen ad (dev w)" "Open ad (dev w) = (Some e, d)"
      "exec ad CallStart w =
         w\<lparr>listener := Some (length (socks w)), running := False, dev := d,
           calls := calls w @ [(length (tasks w), CIsOpen False),
                               (length (tasks w), COpen (Some e))],
           socks := socks w @ [(address w, False)], backlog := [],
           tasks := tasks w @ [Returned (Some (FailedToOpenAdapter e))]\<rparr>"
  | (started) d cs where "\<not> running w" "(address w, True) \<notin> set (socks w)"
      "cs = [(length (tasks w), CIsOpen True)] \<and> d = dev w \<or>
       cs = [(length (tasks w), CIsOpen False), (length (tasks w), COpen None)]"
      "exec ad CallStart w =
         w\<lparr>listener := Some (length (socks w)), running := True, dev := d,
           calls := calls w @ cs, socks := socks w @ [(address w, True)],
           tasks := tasks w @ [Accepting]\<rparr>"
  | (idle) "exec ad CallStart w = w"
proof (cases "panicked w")
  case True
  then show ?thesis by (intro idle) (simp add: exec_def)
next
  case ok: False
  show ?thesis
  proof (cases "running w")
    case True
    with ok show ?thesis
      by (intro returned[of "Some ServerAlreadyRunning"])
         (simp add: exec_def invoke_eq Start_closed_form)
  next
    case stopped: False
    show ?thesis
    proof (cases "address w \<in> set (unusable w) \<or> (address w, True) \<in> set (socks w)")
      case True
      with ok stopped show ?thesis
        by (intro returned[of "Some (FailedToStartServer ''listen failed'')"])
           (simp add: exec_def invoke_eq Start_closed_form)
    next
      case nofail: False
      show ?thesis
      proof (cases "IsOpen ad (dev w)")
        case True
        with ok stopped nofail show ?thesis
          by (intro started[of "[(length (tasks w), CIsOpen True)]" "dev w"])
             (simp_all add: exec_def invoke_eq Start_closed_form)
      next
        case notopen: False
        obtain r d where od: "Open ad (dev w) = (r, d)" by (cases "Open ad (dev w)")
        show ?thesis
        proof (cases r)
          case None
          with ok stopped nofail notopen od show ?thesis
            by (intro started[of "[(length (tasks w), CIsOpen False),
                                   (length (tasks w), COpen None)]" d])
               (simp_all add: exec_def invoke_eq Start_closed_form)
        next
          case (Some e)
          with ok stopped nofail notopen od show ?thesis
            by (intro open_failed[of e d]) (simp_all add: exec_def invoke_eq Start_closed_form)
        qed
      qed
    qed
  qed
qed

lemma exec_CallStartAsync_cases:
  fixes w :: "'a world"
  obtains
    (returned) r where "exec ad CallStartAsync w = w\<lparr>tasks := tasks w @ [Returned r]\<rparr>"
  | (open_failed) e d where "\<not> running w" "\<not> IsOpen ad (dev w)" "Open ad (dev w) = (Some e, d)"
      "exec ad CallStartAsync w =
         w\<lparr>listener := Some (length (socks w)), running := False, dev := d,
           calls := calls w @ [(length (tasks w), CIsOpen False),
                               (length (tasks w), COpen (Some e))],
           socks := socks w @ [(address w, False)], backlog := [],
           tasks := tasks w @ [Returned (Some (FailedToOpenAdapter e))]\<rparr>"
  | (started) d cs where "\<not> running w" "(address w, True) \<notin> set (socks w)"
      "cs = [(length (tasks w), CIsOpen True)] \<and> d = dev w \<or>
       cs = [(length (tasks w), CIsOpen False), (length (tasks w), COpen None)]"
      "exec ad CallStartAsync w =
         w\<lparr>listener := Some (length (socks w)), running := True, dev := d,
           calls := calls w @ cs, socks := socks w @ [(address w, True)],
           wg := wg w + 1, tasks := tasks w @ [Returned None, Accepting]\<rparr>"
  | (idle) "exec ad CallStartAsync w = w"
proof (cases "panicked w")
  case True
  then show ?thesis by (intro idle) (simp add: exec_def)
next
  case ok: False
  show ?thesis
  proof (cases "running w")
    case True
    with ok show ?thesis
      by (intro returned[of "Some ServerAlreadyRunning"])
         (simp add: exec_def invoke_eq StartAsync_closed_form)
  next
    case stopped: False
    show ?thesis
    proof (cases "address w \<in> set (unusable w) \<or> (address w, True) \<in> set (socks w)")
      case True
      with ok stopped show ?thesis
        by (intro returned[of "Some (FailedToStartServer ''listen failed'')"])
           (simp add: exec_def invoke_eq StartAsync_closed_form)
    next
      case nofail: False
      show ?thesis
      proof (cases "IsOpen ad (dev w)")
        case True
        with ok stopped nofail show ?thesis
          by (intro started[of "[(length (tasks w), CIsOpen True)]" "dev w"])
             (simp_all add: exec_def invoke_eq StartAsync_closed_form list_update_append)
      next
        case notopen: False
        obtain r d where od: "Open ad (dev w) = (r, d)" by (cases "Open ad (dev w)")
        show ?thesis
        proof (cases r)
          case None
          with ok stopped nofail notopen od show ?thesis
            by (intro started[of "[(length (tasks w), CIsOpen False),
                                   (length (tasks w), COpen None)]" d])
               (simp_all add: exec_def invoke_eq StartAsync_closed_form list_update_append)
        next
          case (Some e)
          with ok stopped nofail notopen od show ?thesis
            by (intro open_failed[of e d])
               (simp_all add: exec_def invoke_eq StartAsync_closed_form)
        qed
      qed
    qed
  qed
qed

lemma exec_CallStop_cases:
  fixes w :: "'a world"
  obtains
    (returned) r where "exec ad CallStop w = w\<lparr>tasks := tasks w @ [Returned r]\<rparr>"
  | (stopping) "running w"
      "exec ad CallStop w = w\<lparr>running := False, tasks := tasks w @ [StopClosing (listener w)]\<rparr>"
  | (idle) "exec ad CallStop w = w"
proof (cases "panicked w")
  case True
  then show ?thesis by (intro idle) (simp add: exec_def)
next
  case ok: False
  show ?thesis
  proof (cases "running w")
    case True
    with ok show ?thesis
      by (intro stopping) (simp_all add: exec_def invoke_eq Stop_def)
  next
    case False
    with ok show ?thesis
      by (intro returned[of None]) (simp add: exec_def invoke_eq Stop_def)
  qed
qed


lemma exec_Connect_cases:
  fixes w :: "'a world"
  obtains
    (connected) "exec ad (Connect c) w = w\<lparr>backlog := backlog w @ [c]\<rparr>"
  | (idle) "exec ad (Connect c) w = w"
proof (cases "panicked w \<or> (address w, True) \<notin> set (socks w)")
  case True
  then show ?thesis by (intro idle) (auto simp: exec_def connect_def)
next
  case False
  then show ?thesis by (intro connected) (simp add: exec_def connect_def)
qed

lemma exec_AcceptError_cases:
  fixes w :: "'a world"
  obtains
    (accept_exit) "g < length (tasks w)" "tasks w ! g = Accepting" "\<not> running w"
      "exec ad (AcceptError g) w = w\<lparr>tasks := (tasks w)[g := Returned None]\<rparr>"
  | (idle) "exec ad (AcceptError g) w = w"
proof (cases "\<not> panicked w \<and> g < length (tasks w) \<and> tasks w ! g = Accepting \<and> \<not> running w")
  case True
  then show ?thesis by (intro accept_exit) (simp_all add: exec_def accept_failed_def)
next
  case False
  then show ?thesis by (intro idle) (auto simp: exec_def accept_failed_def)
qed

lemma exec_Step_Accepting_cases:
  fixes w :: "'a world"
  assumes "\<not> panicked w" "g < length (tasks w)" "tasks w ! g = Accepting"
  obtains
    (accepted) c cs where "backlog w = c # cs"
      "exec ad (Step g) w =
         w\<lparr>backlog := cs, wg := wg w + 1,
           tasks := tasks w @ [Reading \<lparr>sends = c, unread = c\<rparr>]\<rparr>"
  | (accept_exit) "\<not> running w"
      "exec ad (Step g) w = w\<lparr>tasks := (tasks w)[g := Returned None]\<rparr>"
  | (accept_nil) "exec ad (Step g) w = w\<lparr>panicked := True\<rparr>"
  | (idle) "exec ad (Step g) w = w"
proof (cases "listener w")
  case None
  with assms show ?thesis
    by (intro accept_nil) (simp add: exec_def step_def acceptConnections_def)
next
  case (Some l)
  show ?thesis
  proof (cases "l < length (socks w) \<and> snd (socks w ! l)")
    case True
    show ?thesis
    proof (cases "backlog w")
      case Nil
      with assms Some True show ?thesis
        by (intro idle) (simp add: exec_def step_def acceptConnections_def)
    next
      case (Cons c cs)
      with assms Some True show ?thesis
        by (intro accepted[of c cs]) (simp_all add: exec_def step_def acceptConnections_def)
    qed
  next
    case False
    show ?thesis
    proof (cases "running w")
      case True
      with assms Some False show ?thesis
        by (intro idle) (auto simp: exec_def step_def acceptConnections_def accept_failed_def)
    next
      case stopped: False
      with assms Some False show ?thesis
        by (intro accept_exit)
           (auto simp: exec_def step_def acceptConnections_def accept_failed_def)
    qed
  qed
qed

lemma exec_Step_Reading_cases:
  fixes w :: "'a world"
  assumes "\<not> panicked w" "g < length (tasks w)" "tasks w ! g = Reading c"
  obtains
    (read_data) c' bs where "conn_Read c = (Some (Inl bs), c')" "bs \<noteq> []"
      "exec ad (Step g) w = w\<lparr>tasks := (tasks w)[g := Writing c' bs]\<rparr>"
  | (read_empty) c' where "conn_Read c = (Some (Inl []), c')"
      "exec ad (Step g) w = w\<lparr>tasks := (tasks w)[g := Reading c']\<rparr>"
  | (read_failed) e where "conn_Read c = (Some (Inr e), c)"
      "exec ad (Step g) w =
         w\<lparr>tasks := (tasks w)[g := Closed c], wg := wg w - 1, panicked := wg w - 1 < 0\<rparr>"
  | (idle) "exec ad (Step g) w = w"
proof -
  obtain r c' where rd: "conn_Read c = (r, c')" by (cases "conn_Read c")
  show ?thesis
  proof (cases r)
    case None
    with assms rd show ?thesis
      by (intro idle) (simp add: exec_def step_def handleConnection_read_def)
  next
    case (Some x)
    show ?thesis
    proof (cases x)
      case (Inl bs)
      show ?thesis
      proof (cases "bs = []")
        case True
        with assms rd Some Inl show ?thesis
          by (intro read_empty[of c']) (simp_all add: exec_def step_def handleConnection_read_def)
      next
        case False
        with assms rd Some Inl show ?thesis
          by (intro read_data[of bs c']) (simp_all add: exec_def step_def handleConnection_read_def)
      qed
    next
      case (Inr e)
      with rd Some have "c' = c"
        by (auto simp: conn_Read_def split: list.splits rd.splits if_splits)
      with assms rd Some Inr show ?thesis
        by (intro read_failed[of e])
           (simp_all add: exec_def step_def handleConnection_read_def handleConnection_return_def)
    qed
  qed
qed

lemma exec_Step_Writing_cases:
  fixes w :: "'a world"
  assumes "\<not> panicked w" "g < length (tasks w)" "tasks w ! g = Writing c bs"
  obtains
    (write_ok) n d where "Write ad bs (dev w) = ((n, None), d)"
      "exec ad (Step g) w =
         w\<lparr>dev := d, calls := calls w @ [(g, CWrite bs n None)],
           tasks := (tasks w)[g := Reading c]\<rparr>"
  | (write_failed) n e d where "Write ad bs (dev w) = ((n, Some e), d)"
      "exec ad (Step g) w =
         w\<lparr>dev := d, calls := calls w @ [(g, CWrite bs n (Some e))],
           tasks := (tasks w)[g := Closed c], wg := wg w - 1, panicked := wg w - 1 < 0\<rparr>"
proof -
  obtain n r d where wr: "Write ad bs (dev w) = ((n, r), d)"
    by (cases "Write ad bs (dev w)") auto
  show ?thesis
  proof (cases r)
    case None
    with assms wr show ?thesis
      by (intro write_ok[of n d])
         (simp_all add: exec_def step_def handleConnection_write_def adapter_Write_def)
  next
    case (Some e)
    with assms wr show ?thesis
      by (intro write_failed[of n e d])
         (simp_all add: exec_def step_def handleConnection_write_def adapter_Write_def
            handleConnection_return_def)
  qed
qed

lemma exec_Step_StopClosing_cases:
  fixes w :: "'a world"
  assumes "\<not> panicked w" "g < length (tasks w)" "tasks w ! g = StopClosing l"
  obtains
    (stop_closes) h where "l = Some h" "h < length (socks w)" "snd (socks w ! h)"
      "exec ad (Step g) w =
         w\<lparr>socks := (socks w)[h := (fst (socks w ! h), False)], backlog := [],
           tasks := (tasks w)[g := StopWaiting]\<rparr>"
  | (stop_closed) "l = None \<or> (\<exists>h. l = Some h \<and> \<not> (h < length (socks w) \<and> snd (socks w ! h)))"
      "exec ad (Step g) w = w\<lparr>tasks := (tasks w)[g := StopWaiting]\<rparr>"
proof (cases l)
  case None
  with assms show ?thesis
    by (intro stop_closed) (simp_all add: exec_def step_def Stop_close_def)
next
  case (Some h)
  show ?thesis
  proof (cases "h < length (socks w) \<and> snd (socks w ! h)")
    case True
    with assms Some show ?thesis
      by (intro stop_closes[of h])
         (simp_all add: exec_def step_def Stop_close_def listener_Close_def)
  next
    case False
    with assms Some show ?thesis
      by (intro stop_closed) (auto simp: exec_def step_def Stop_close_def listener_Close_def)
  qed
qed

lemma exec_Step_StopWaiting_cases:
  fixes w :: "'a world"
  assumes "\<not> panicked w" "g < length (tasks w)" "tasks w ! g = StopWaiting"
  obtains
    (stop_waited) "wg w = 0"
      "exec ad (Step g) w = w\<lparr>tasks := (tasks w)[g := StopAdapter]\<rparr>"
  | (idle) "exec ad (Step g) w = w"
proof (cases "wg w = 0")
  case True
  with assms show ?thesis by (intro stop_waited) (simp_all add: exec_def step_def Stop_Wait_def)
next
  case False
  with assms show ?thesis by (intro idle) (simp add: exec_def step_def Stop_Wait_def)
qed

lemma exec_Step_StopAdapter_cases:
  fixes w :: "'a world"
  assumes "\<not> panicked w" "g < length (tasks w)" "tasks w ! g = StopAdapter"
  obtains
    (stop_adapter) cs d r where
      "cs = [(g, CIsOpen False)] \<and> d = dev w \<and> r = None \<or>
       (\<exists>e. cs = [(g, CIsOpen True), (g, CClose e)] \<and> r = map_option AdapterError e)"
      "exec ad (Step g) w =
         w\<lparr>dev := d, calls := calls w @ cs, tasks := (tasks w)[g := Returned r]\<rparr>"
proof (cases "IsOpen ad (dev w)")
  case False
  with assms show ?thesis
    by (intro stop_adapter[of "[(g, CIsOpen False)]" "dev w" None])
       (simp_all add: exec_def step_def Stop_adapter_def adapter_IsOpen_def)
next
  case True
  obtain e d where cl: "Close ad (dev w) = (e, d)" by (cases "Close ad (dev w)")
  with assms True show ?thesis
    by (intro stop_adapter[of "[(g, CIsOpen True), (g, CClose e)]" d "map_option AdapterError e"])
       (auto simp: exec_def step_def Stop_adapter_def adapter_IsOpen_def adapter_Close_def
          split: option.splits)
qed

section \<open>Calls that change nothing\<close>

text \<open>
  C6. Called while the server is running, \<open>Start\<close> and \<open>StartAsync\<close> return the error
  "server already running" and leave everything as it was: the running flag, the
  listener and its socket, and the adapter.
\<close>

theorem start_while_running:
  "running w \<Longrightarrow>
     Start ad g w = (Returned (Some ServerAlreadyRunning), w) \<and>
     StartAsync ad g w = (Returned (Some ServerAlreadyRunning), w)"
  by (simp add: Start_def StartAsync_def)

theorem start_while_running_witness:
  "running (snd (StartAsync Mock 0 (New mock0 ''localhost:9101'' []))) \<and>
   Start Mock 1 (snd (StartAsync Mock 0 (New mock0 ''localhost:9101'' []))) =
     (Returned (Some ServerAlreadyRunning),
      snd (StartAsync Mock 0 (New mock0 ''localhost:9101'' []))) \<and>
   StartAsync Mock 1 (snd (StartAsync Mock 0 (New mock0 ''localhost:9101'' []))) =
     (Returned (Some ServerAlreadyRunning),
      snd (StartAsync Mock 0 (New mock0 ''localhost:9101'' [])))"
proof -
  have r: "running (snd (StartAsync Mock 0 (New mock0 ''localhost:9101'' [])))"
    by (simp add: StartAsync_def Listen_def adapter_IsOpen_def adapter_Open_def New_def
        Mock_def mock0_def MockAdapter_Open_def MockAdapter_IsOpen_def)
  show ?thesis
    using r start_while_running[OF r, of Mock 1] by simp
qed

text \<open>
  C7. Called while the server is not running, \<open>Stop\<close> returns nil and leaves everything
  as it was.
\<close>

theorem stop_while_not_running:
  "\<not> running w \<Longrightarrow> Stop w = (Returned None, w)"
  by (simp add: Stop_def)

theorem stop_while_not_running_witness:
  "\<not> running (New mock0 ''localhost:9101'' []) \<and>
   Stop (New mock0 ''localhost:9101'' []) = (Returned None, New mock0 ''localhost:9101'' [])"
proof -
  have r: "\<not> running (New mock0 ''localhost:9101'' [])"
    by (simp add: New_def)
  show ?thesis
    using r stop_while_not_running[OF r] by simp
qed

section \<open>Stop after StartAsync\<close>

lemma run_invariant:
  assumes "P w" and "\<And>ev w. P w \<Longrightarrow> P (exec ad ev w)"
  shows "P (run ad evs w)"
  using assms(1) unfolding run_def
  by (induction evs arbitrary: w) (simp_all add: assms(2))

lemma run_Cons: "run ad (ev # evs) w = run ad evs (exec ad ev w)"
  by (simp add: run_def)

lemma exec_Step_idle:
  assumes "panicked w \<or> \<not> g < length (tasks w) \<or> tasks w ! g = Calling \<or>
           (\<exists>c. tasks w ! g = Closed c) \<or> (\<exists>r. tasks w ! g = Returned r)"
  shows "exec ad (Step g) w = w"
  using assms by (auto simp: exec_def step_def)

lemma filter_update_length:
  "g < length xs \<Longrightarrow>
     length (filter P (xs[g := t])) + (if P (xs ! g) then 1 else 0) =
     length (filter P xs) + (if P t then 1 else 0)"
proof (induction xs arbitrary: g)
  case Nil
  then show ?case by simp
next
  case (Cons x xs)
  show ?case
  proof (cases g)
    case 0
    then show ?thesis by simp
  next
    case (Suc k)
    with Cons.prems have "k < length xs" by simp
    from Cons.IH[OF this] Suc show ?thesis by simp
  qed
qed

lemma handlers_update:
  assumes "g < length ts"
  shows "int (handlers (ts[g := t])) =
     int (handlers ts) - (if handling (ts ! g) then 1 else 0) + (if handling t then 1 else 0)"
  using filter_update_length[OF assms, of handling t] by (auto simp: handlers_def)

lemma handlers_append: "handlers (ts @ us) = handlers ts + handlers us"
  by (simp add: handlers_def)

lemma handlers_simps:
  "handlers [] = 0" "handlers (t # ts) = (if handling t then 1 else 0) + handlers ts"
  by (simp_all add: handlers_def)

text \<open>
  Nothing that happens lets a pending \<open>Stop\<close> through: only \<open>handleConnection\<close> calls
  \<open>Done\<close>, once for each \<open>Add\<close> of the accept loop, and the \<open>Add\<close> of \<open>StartAsync\<close>
  stays.
\<close>

lemma stop_blocked_exec:
  assumes "stop_blocked s w"
  shows "stop_blocked s (exec ad ev w)"
proof (cases "panicked w")
  case True
  with assms show ?thesis by (simp add: exec_def)
next
  case ok: False
  from assms have s: "s < length (tasks w)" and p: "stop_pending (tasks w ! s)"
    and h: "int (handlers (tasks w)) < wg w"
    by (simp_all add: stop_blocked_def)
  show ?thesis
  proof (cases ev)
    case CallStart
    show ?thesis
      by (rule exec_CallStart_cases[of ad w])
         (use s p h in \<open>simp_all add: CallStart stop_blocked_def handlers_append
            handlers_simps nth_append\<close>)
  next
    case CallStartAsync
    show ?thesis
      by (rule exec_CallStartAsync_cases[of ad w])
         (use s p h in \<open>simp_all add: CallStartAsync stop_blocked_def handlers_append
            handlers_simps nth_append\<close>)
  next
    case CallStop
    show ?thesis
      by (rule exec_CallStop_cases[of ad w])
         (use s p h in \<open>simp_all add: CallStop stop_blocked_def handlers_append
            handlers_simps nth_append\<close>)
  next
    case (Connect c)
    show ?thesis
      by (rule exec_Connect_cases[of ad c w])
         (use s p h in \<open>simp_all add: Connect stop_blocked_def\<close>)
  next
    case (AcceptError g)
    show ?thesis
      by (rule exec_AcceptError_cases[of g w ad])
         (use s p h in \<open>auto simp: AcceptError stop_blocked_def handlers_update
            nth_list_update\<close>)
  next
    case (Step g)
    show ?thesis
    proof (cases "g < length (tasks w)")
      case False
      then have "exec ad (Step g) w = w" by (simp add: exec_Step_idle)
      with assms Step show ?thesis by simp
    next
      case g: True
      show ?thesis
      proof (cases "tasks w ! g")
        case Accepting
        show ?thesis
          by (rule exec_Step_Accepting_cases[OF ok g Accepting, of ad])
             (use s p h g Accepting in \<open>auto simp: Step stop_blocked_def handlers_update
                nth_list_update nth_append handlers_append handlers_simps\<close>)
      next
        case (Reading c)
        show ?thesis
          by (rule exec_Step_Reading_cases[OF ok g Reading, of ad])
             (use s p h g Reading in \<open>auto simp: Step stop_blocked_def handlers_update
                nth_list_update\<close>)
      next
        case (Writing c bs)
        show ?thesis
          by (rule exec_Step_Writing_cases[OF ok g Writing, of ad])
             (use s p h g Writing in \<open>auto simp: Step stop_blocked_def handlers_update
                nth_list_update\<close>)
      next
        case (StopClosing l)
        show ?thesis
          by (rule exec_Step_StopClosing_cases[OF ok g StopClosing, of ad])
             (use s p h g StopClosing in \<open>auto simp: Step stop_blocked_def handlers_update
                nth_list_update\<close>)
      next
        case StopWaiting
        show ?thesis
          by (rule exec_Step_StopWaiting_cases[OF ok g StopWaiting, of ad])
             (use s p h g StopWaiting in \<open>auto simp: Step stop_blocked_def handlers_update
                nth_list_update\<close>)
      next
        case StopAdapter
        show ?thesis
          by (rule exec_Step_StopAdapter_cases[OF ok g StopAdapter, of ad])
             (use s p h g StopAdapter in \<open>auto simp: Step stop_blocked_def handlers_update
                nth_list_update\<close>)
      next
        case Calling
        then have "exec ad (Step g) w = w" by (simp add: exec_Step_idle)
        with assms Step show ?thesis by simp
      next
        case (Closed c)
        then have "exec ad (Step g) w = w" by (simp add: exec_Step_idle)
        with assms Step show ?thesis by simp
      next
        case (Returned r)
        then have "exec ad (Step g) w = w" by (simp add: exec_Step_idle)
        with assms Step show ?thesis by simp
      qed
    qed
  qed
qed

lemma stop_blocked_run: "stop_blocked s w \<Longrightarrow> stop_blocked s (run ad evs w)"
  by (rule run_invariant) (simp_all add: stop_blocked_exec)

lemmas mock_defs = Mock_def mock0_def MockAdapter_Open_def MockAdapter_Write_def
  MockAdapter_Close_def MockAdapter_IsOpen_def

lemmas eval_defs = run_def exec_def invoke_eq step_def connect_def New_def
  Start_closed_form StartAsync_closed_form Stop_def Stop_close_def Stop_Wait_def
  Stop_adapter_def listener_Close_def acceptConnections_def accept_failed_def
  handleConnection_read_def handleConnection_write_def handleConnection_return_def
  conn_Read_def adapter_IsOpen_def adapter_Open_def adapter_Close_def adapter_Write_def

text \<open>
  C1. \<open>TestServerStartStop\<close>: \<open>StartAsync\<close> on a new server over the mock adapter, then
  \<open>Stop\<close>. Whatever happens afterwards, the goroutine that called \<open>Stop\<close> (number 2)
  is still at or before \<open>s.wg.Wait()\<close>, and the counter of the wait group is positive:
  \<open>Stop\<close> does not close the adapter and does not return.
\<close>

theorem Stop_after_StartAsync_never_returns:
  "2 < length (tasks (run Mock (CallStartAsync # CallStop # evs)
                        (New mock0 ''localhost:9101'' []))) \<and>
   stop_pending (tasks (run Mock (CallStartAsync # CallStop # evs)
                          (New mock0 ''localhost:9101'' [])) ! 2) \<and>
   0 < wg (run Mock (CallStartAsync # CallStop # evs) (New mock0 ''localhost:9101'' []))"
proof -
  have "stop_blocked 2 (run Mock [CallStartAsync, CallStop] (New mock0 ''localhost:9101'' []))"
    by (simp add: stop_blocked_def eval_defs mock_defs handlers_simps)
  then have "stop_blocked 2 (run Mock evs
      (run Mock [CallStartAsync, CallStop] (New mock0 ''localhost:9101'' [])))"
    by (rule stop_blocked_run)
  then show ?thesis
    by (simp add: stop_blocked_def run_def)
qed


end
